theory Spec2Isabelle
  imports Main
begin

section \<open>Data model\<close>

text \<open>
  The serial workflow specification is a JSON document. The utilities in
  \<^verbatim>\<open>utils.py\<close> read two keys of a step, \<^verbatim>\<open>"name"\<close> and \<^verbatim>\<open>"commands"\<close>, and one
  key of the workflow, \<^verbatim>\<open>"steps"\<close>. A step is an extensible record: whatever other keys
  a step carries (environment, resource limits) live in the record's extension, so that
  Python's \<^verbatim>\<open>==\<close> on two step dictionaries is HOL equality on the whole record.
\<close>

record step =
  name :: string
  commands :: "string list"

record 'a workflow_json =
  steps :: "'a step_scheme list"

text \<open>The exceptions the modelled code can raise.\<close>

datatype py_error = IndexError | KeyError | TypeError | FileExistsError | NotADirectoryError

subsection \<open>Python primitives\<close>

text \<open>
  \<^verbatim>\<open>str.lower()\<close> restricted to ASCII letters; every other character is left as it is.
  Only the evaluations at concrete inputs unfold this definition, so the general theorems
  hold for any lower-casing function.
\<close>

definition lower_char :: "char \<Rightarrow> char" where
  "lower_char c =
     (case map_of (zip ''ABCDEFGHIJKLMNOPQRSTUVWXYZ'' ''abcdefghijklmnopqrstuvwxyz'') c of
        Some l \<Rightarrow> l
      | None \<Rightarrow> c)"

definition lower :: "string \<Rightarrow> string" where
  "lower s = map lower_char s"

text \<open>
  The truth value of an optional string argument: \<^verbatim>\<open>None\<close> and the empty string are
  false, every other string is true.
\<close>

fun truthy_str :: "string option \<Rightarrow> bool" where
  "truthy_str None = False"
| "truthy_str (Some s) = (s \<noteq> [])"

text \<open>
  \<^verbatim>\<open>next(gen, default)\<close> over a generator that filters \<^verbatim>\<open>enumerate(xs)\<close> and yields
  \<^verbatim>\<open>f i\<close> for the first pair that passes the test.
\<close>

definition py_next :: "(nat \<Rightarrow> nat) \<Rightarrow> ('a \<Rightarrow> bool) \<Rightarrow> 'a list \<Rightarrow> nat \<Rightarrow> nat" where
  "py_next f P xs dflt =
     (case List.find (\<lambda>(i, x). P x) (List.enumerate 0 xs) of
        None \<Rightarrow> dflt
      | Some (i, x) \<Rightarrow> f i)"

text \<open>
  \<^verbatim>\<open>xs[i:j]\<close> for two indices that are not negative: both are clamped to the length.
\<close>

definition py_slice :: "'a list \<Rightarrow> nat \<Rightarrow> nat \<Rightarrow> 'a list" where
  "py_slice xs i j = drop i (take j xs)"

section \<open>Step range selection\<close>

text \<open>
  \<^verbatim>\<open>get_targeted_workflow_steps(workflow_json, target_step=None, from_step=None)\<close>.
  The two indices start at their defaults and are recomputed only when the
  corresponding name is true; the comparison then decides between the slice and the
  full list (returned after the error is logged).
\<close>

definition get_targeted_workflow_steps ::
  "'b workflow_json \<Rightarrow> string option \<Rightarrow> string option \<Rightarrow> 'b step_scheme list" where
  "get_targeted_workflow_steps workflow_json target_step from_step =
     (let from_step_idx = 0;
          target_step_idx = length (steps workflow_json);
          from_step_idx =
            (if truthy_str from_step
             then py_next (\<lambda>i. i)
                    (\<lambda>st. lower (name st) = lower (the from_step))
                    (steps workflow_json) 0
             else from_step_idx);
          target_step_idx =
            (if truthy_str target_step
             then py_next (\<lambda>i. i + 1)
                    (\<lambda>st. lower (name st) = lower (the target_step))
                    (steps workflow_json) target_step_idx
             else target_step_idx)
      in if from_step_idx \<le> target_step_idx
         then py_slice (steps workflow_json) from_step_idx target_step_idx
         else steps workflow_json)"

subsection \<open>The selection as the specification words it\<close>

text \<open>
  A step matches a name when the two are equal after lower-casing. A name is given when
  it is set and not empty. \<open>spec_from_index\<close> is the position of the first step that
  matches \<open>from_step\<close>, and 0 when the name is not given or matches no step;
  \<open>spec_target_index\<close> is one past the position of the first step that matches
  \<open>target_step\<close>, and the length of the list when the name is not given or matches no step.
\<close>

definition name_matches :: "string \<Rightarrow> 'a step_scheme \<Rightarrow> bool" where
  "name_matches n st = (lower (name st) = lower n)"

definition first_position :: "('a \<Rightarrow> bool) \<Rightarrow> 'a list \<Rightarrow> nat" where
  "first_position P xs = length (takeWhile (\<lambda>x. \<not> P x) xs)"

definition spec_from_index :: "'a step_scheme list \<Rightarrow> string option \<Rightarrow> nat" where
  "spec_from_index sts from_step =
     (case from_step of
        None \<Rightarrow> 0
      | Some n \<Rightarrow>
          if n \<noteq> [] \<and> list_ex (name_matches n) sts
          then first_position (name_matches n) sts else 0)"

definition spec_target_index :: "'a step_scheme list \<Rightarrow> string option \<Rightarrow> nat" where
  "spec_target_index sts target_step =
     (case target_step of
        None \<Rightarrow> length sts
      | Some n \<Rightarrow>
          if n \<noteq> [] \<and> list_ex (name_matches n) sts
          then first_position (name_matches n) sts + 1 else length sts)"

section \<open>Progress events\<close>

text \<open>
  A bucket of jobs as the publishers build it: the dictionary
  \<^verbatim>\<open>{"total": n, "job_ids": [...]}\<close>.
\<close>

record job_bucket =
  total :: int
  job_ids :: "string list"

text \<open>
  Modelled from the spec: \<^verbatim>\<open>build_progress_message\<close> and
  \<^verbatim>\<open>build_caching_info_message\<close> are imported from \<^verbatim>\<open>reana_commons.utils\<close>, which is
  not among the sources. The specification gives the progress payload as
  \<^verbatim>\<open>{total?, running?, finished?, failed?, cached?}\<close>: a bucket is present when the
  keyword argument was given and absent when it was \<^verbatim>\<open>None\<close>. The caching metadata is
  the tuple of the five arguments.
\<close>

record progress_message =
  progress_total :: "job_bucket option"
  progress_running :: "job_bucket option"
  progress_finished :: "job_bucket option"
  progress_failed :: "job_bucket option"
  progress_cached :: "job_bucket option"

definition build_progress_message ::
  "job_bucket option \<Rightarrow> job_bucket option \<Rightarrow> job_bucket option \<Rightarrow> job_bucket option \<Rightarrow>
   job_bucket option \<Rightarrow> progress_message" where
  "build_progress_message total' running finished failed cached =
     \<lparr>progress_total = total', progress_running = running, progress_finished = finished,
      progress_failed = failed, progress_cached = cached\<rparr>"

record ('j, 'a) caching_info =
  info_job_spec :: 'j
  info_job_id :: string
  info_workflow_workspace :: string
  info_workflow_json :: "'a step_scheme"
  info_result_path :: string

definition build_caching_info_message ::
  "'j \<Rightarrow> string \<Rightarrow> string \<Rightarrow> 'a step_scheme \<Rightarrow> string \<Rightarrow> ('j, 'a) caching_info" where
  "build_caching_info_message job_spec job_id workflow_workspace workflow_json result_path =
     \<lparr>info_job_spec = job_spec, info_job_id = job_id,
      info_workflow_workspace = workflow_workspace, info_workflow_json = workflow_json,
      info_result_path = result_path\<rparr>"

text \<open>
  The \<^verbatim>\<open>message\<close> dictionary handed to the publisher. A key that a publisher does not
  set is \<open>None\<close>; \<^verbatim>\<open>"pod_name"\<close>, when set, holds what \<^verbatim>\<open>os.getenv\<close> returned, which
  is itself optional.
\<close>

record ('j, 'a) message =
  progress :: "progress_message option"
  caching_info :: "('j, 'a) caching_info option"
  pod_name :: "string option option"

definition empty_message :: "('j, 'a) message" where
  "empty_message = \<lparr>progress = None, caching_info = None, pod_name = None\<rparr>"

text \<open>
  The publisher is the sequence of calls of \<^verbatim>\<open>publish_workflow_status\<close> made so far,
  oldest first. The process environment is a map from variable names to values.
\<close>

record ('j, 'a) published =
  published_uuid :: string
  published_status :: int
  published_message :: "('j, 'a) message"

type_synonym ('j, 'a) publisher = "('j, 'a) published list"

type_synonym environ = "string \<rightharpoonup> string"

definition publish_workflow_status ::
  "('j, 'a) publisher \<Rightarrow> string \<Rightarrow> int \<Rightarrow> ('j, 'a) message \<Rightarrow> ('j, 'a) publisher" where
  "publish_workflow_status publisher workflow_uuid workflow_status msg =
     publisher @ [\<lparr>published_uuid = workflow_uuid, published_status = workflow_status,
                   published_message = msg\<rparr>]"

definition getenv :: "environ \<Rightarrow> string \<Rightarrow> string option" where
  "getenv environ var = environ var"

text \<open>\<^verbatim>\<open>xs[-1]\<close>: the last element, \<^verbatim>\<open>IndexError\<close> on the empty list.\<close>

fun py_last :: "'a list \<Rightarrow> py_error + 'a" where
  "py_last [] = Inl IndexError"
| "py_last (x # xs) = Inr (last (x # xs))"

text \<open>
  The test both completion publishers make:
  \<^verbatim>\<open>step == expanded_workflow_json["steps"][-1] and command == step["commands"][-1]\<close>.
  The left operand is evaluated first and can raise; the right operand is evaluated only
  when the left one is true, and can raise too. Equality is equality of values.
\<close>

definition is_final_command ::
  "'a workflow_json \<Rightarrow> 'a step_scheme \<Rightarrow> string \<Rightarrow> py_error + bool" where
  "is_final_command expanded_workflow_json step command =
     (case py_last (steps expanded_workflow_json) of
        Inl e \<Rightarrow> Inl e
      | Inr last_step \<Rightarrow>
          if step = last_step
          then (case py_last (commands step) of
                  Inl e \<Rightarrow> Inl e
                | Inr last_command \<Rightarrow> Inr (command = last_command))
          else Inr False)"

text \<open>\<^verbatim>\<open>publish_cache_copy\<close>: the cache hit.\<close>

definition publish_cache_copy ::
  "string \<Rightarrow> 'a step_scheme \<Rightarrow> 'a workflow_json \<Rightarrow> string \<Rightarrow> ('j, 'a) publisher \<Rightarrow> string \<Rightarrow>
   py_error + ('j, 'a) publisher" where
  "publish_cache_copy job_id step expanded_workflow_json command publisher workflow_uuid =
     (case is_final_command expanded_workflow_json step command of
        Inl e \<Rightarrow> Inl e
      | Inr final \<Rightarrow>
          let workflow_status = (if final then 2 else 1);
              finished_jobs = \<lparr>total = 1, job_ids = [job_id]\<rparr>
          in Inr (publish_workflow_status publisher workflow_uuid workflow_status
                   (empty_message\<lparr>progress :=
                      Some (build_progress_message None None (Some finished_jobs) None
                              (Some finished_jobs))\<rparr>)))"

text \<open>\<^verbatim>\<open>publish_job_submission\<close>: always status 1, the job in the running bucket.\<close>

definition publish_job_submission ::
  "nat \<Rightarrow> string \<Rightarrow> 'a workflow_json \<Rightarrow> string \<Rightarrow> ('j, 'a) publisher \<Rightarrow> string \<Rightarrow>
   ('j, 'a) publisher" where
  "publish_job_submission step_number command workflow_json job_id publisher workflow_uuid =
     (let running_jobs = \<lparr>total = 1, job_ids = [job_id]\<rparr>
      in publish_workflow_status publisher workflow_uuid 1
           (empty_message\<lparr>progress :=
              Some (build_progress_message None (Some running_jobs) None None None)\<rparr>))"

text \<open>
  \<^verbatim>\<open>publish_job_success\<close>. The caching metadata is added when \<^verbatim>\<open>cache_dir_path\<close> is
  true; the pod name is always set, to whatever the environment holds.
\<close>

definition publish_job_success ::
  "string \<Rightarrow> 'j \<Rightarrow> string \<Rightarrow> 'a workflow_json \<Rightarrow> 'a step_scheme \<Rightarrow> string \<Rightarrow>
   ('j, 'a) publisher \<Rightarrow> string \<Rightarrow> string option \<Rightarrow> environ \<Rightarrow> py_error + ('j, 'a) publisher" where
  "publish_job_success job_id job_spec workflow_workspace expanded_workflow_json step command publisher
       workflow_uuid cache_dir_path environ =
     (let finished_jobs = \<lparr>total = 1, job_ids = [job_id]\<rparr>
      in case is_final_command expanded_workflow_json step command of
           Inl e \<Rightarrow> Inl e
         | Inr final \<Rightarrow>
             let workflow_status = (if final then 2 else 1);
                 msg = empty_message;
                 msg = msg\<lparr>progress :=
                         Some (build_progress_message None None (Some finished_jobs) None None)\<rparr>;
                 msg = (if truthy_str cache_dir_path
                        then msg\<lparr>caching_info :=
                               Some (build_caching_info_message job_spec job_id workflow_workspace step
                                       (the cache_dir_path))\<rparr>
                        else msg);
                 msg = msg\<lparr>pod_name := Some (getenv environ ''WORKFLOW_POD_NAME'')\<rparr>
             in Inr (publish_workflow_status publisher workflow_uuid workflow_status msg))"

text \<open>\<^verbatim>\<open>publish_workflow_start\<close>: the loop adds up the lengths of the command lists.\<close>

definition publish_workflow_start ::
  "'a step_scheme list \<Rightarrow> string \<Rightarrow> ('j, 'a) publisher \<Rightarrow> environ \<Rightarrow> ('j, 'a) publisher" where
  "publish_workflow_start workflow_steps workflow_uuid publisher environ =
     (let total_commands = fold (\<lambda>step acc. acc + int (length (commands step))) workflow_steps 0;
          total_jobs = \<lparr>total = total_commands, job_ids = []\<rparr>
      in publish_workflow_status publisher workflow_uuid 1
           (empty_message\<lparr>progress :=
                Some (build_progress_message (Some total_jobs) None None None None),
              pod_name := Some (getenv environ ''WORKFLOW_POD_NAME'')\<rparr>))"

text \<open>
  \<^verbatim>\<open>publish_workflow_failure\<close>: the failed bucket is built only when \<^verbatim>\<open>job_id\<close> is
  true, and is \<^verbatim>\<open>None\<close> otherwise.
\<close>

definition publish_workflow_failure ::
  "string option \<Rightarrow> string \<Rightarrow> ('j, 'a) publisher \<Rightarrow> ('j, 'a) publisher" where
  "publish_workflow_failure job_id workflow_uuid publisher =
     (let failed_jobs =
            (if truthy_str job_id then Some \<lparr>total = 1, job_ids = [the job_id]\<rparr> else None)
      in publish_workflow_status publisher workflow_uuid 3
           (empty_message\<lparr>progress :=
              Some (build_progress_message None None None failed_jobs None)\<rparr>))"

section \<open>Cache lookup\<close>

text \<open>
  The parsed body of an HTTP response: what \<^verbatim>\<open>http_response.json()\<close> returns. Numbers are
  integers here. An object is the list of its key-value pairs; a parsed dictionary has
  no key twice, and a key is looked up with \<open>map_of\<close>.
\<close>

datatype json =
    JNull
  | JBool bool
  | JInt int
  | JStr string
  | JList "json list"
  | JObj "(string \<times> json) list"

text \<open>The truth value of a Python object, as \<^verbatim>\<open>if\<close> tests it.\<close>

fun truthy :: "json \<Rightarrow> bool" where
  "truthy JNull = False"
| "truthy (JBool b) = b"
| "truthy (JInt n) = (n \<noteq> 0)"
| "truthy (JStr s) = (s \<noteq> [])"
| "truthy (JList xs) = (xs \<noteq> [])"
| "truthy (JObj kvs) = (kvs \<noteq> [])"

text \<open>
  \<^verbatim>\<open>obj[key]\<close> with a string key: a dictionary raises \<^verbatim>\<open>KeyError\<close> when the key is
  missing, and every other kind of value raises \<^verbatim>\<open>TypeError\<close>.
\<close>

fun py_getitem :: "json \<Rightarrow> string \<Rightarrow> py_error + json" where
  "py_getitem (JObj kvs) k = (case map_of kvs k of None \<Rightarrow> Inl KeyError | Some v \<Rightarrow> Inr v)"
| "py_getitem _ k = Inl TypeError"

text \<open>
  \<^verbatim>\<open>check_cache\<close>. The client call \<^verbatim>\<open>rjc_api_client.check_if_cached(...)\<close> followed by
  \<^verbatim>\<open>.json()\<close> is a function that gives the parsed body, or the error that the call or
  the parsing raised.
\<close>

definition check_cache ::
  "('j \<Rightarrow> 'a step_scheme \<Rightarrow> string \<Rightarrow> py_error + json) \<Rightarrow> 'j \<Rightarrow> 'a step_scheme \<Rightarrow> string \<Rightarrow>
   py_error + json" where
  "check_cache check_if_cached job_spec_copy step workflow_workspace =
     (case check_if_cached job_spec_copy step workflow_workspace of
        Inl e \<Rightarrow> Inl e
      | Inr result \<Rightarrow>
          (case py_getitem result ''cached'' of
             Inl e \<Rightarrow> Inl e
           | Inr cached \<Rightarrow> if truthy cached then Inr result else Inr (JObj [])))"

section \<open>Polling for the job status\<close>

text \<open>
  The status object that \<^verbatim>\<open>rjc_api_client.check_status(job_id)\<close> returns; the loop reads
  its \<^verbatim>\<open>status\<close> attribute.
\<close>

record job_status =
  status :: string

text \<open>
  What the polling function does to the outside world, in order: a status query for a
  job id, or a sleep of a given length.
\<close>

datatype 't io_event = CheckStatus string | Sleep 't

text \<open>
  The remote service is the sequence of its answers: \<open>check_status n\<close> is what the call
  number \<open>n\<close> (counted from 0) returns or raises. The loop has no bound, so it is a
  partial function: \<open>None\<close> is the run that never returns.
  \<^verbatim>\<open>JOB_STATUS_POLLING_INTERVAL\<close> is defined in \<^verbatim>\<open>config.py\<close>, which is not among the
  sources; it is the parameter \<open>interval\<close>.
\<close>

partial_function (option) poll_loop ::
  "(nat \<Rightarrow> py_error + job_status) \<Rightarrow> string \<Rightarrow> 't \<Rightarrow> nat \<Rightarrow> job_status \<Rightarrow> 't io_event list \<Rightarrow>
   ((py_error + job_status) \<times> 't io_event list) option" where
  "poll_loop check_status job_id interval n job_status tr =
     (if status job_status \<notin> set [''finished'', ''failed'', ''stopped'']
      then (case check_status n of
              Inl e \<Rightarrow> Some (Inl e, tr @ [CheckStatus job_id])
            | Inr job_status' \<Rightarrow>
                poll_loop check_status job_id interval (Suc n) job_status'
                  (tr @ [CheckStatus job_id, Sleep interval]))
      else Some (Inr job_status, tr))"

declare poll_loop.simps [code]

definition poll_job_status ::
  "(nat \<Rightarrow> py_error + job_status) \<Rightarrow> string \<Rightarrow> 't \<Rightarrow>
   ((py_error + job_status) \<times> 't io_event list) option" where
  "poll_job_status check_status job_id interval =
     (case check_status 0 of
        Inl e \<Rightarrow> Some (Inl e, [CheckStatus job_id])
      | Inr job_status \<Rightarrow> poll_loop check_status job_id interval 1 job_status [CheckStatus job_id])"

text \<open>A status is terminal when it is one of the three the loop stops on.\<close>

definition is_terminal :: "job_status \<Rightarrow> bool" where
  "is_terminal js = (status js = ''finished'' \<or> status js = ''failed'' \<or> status js = ''stopped'')"

text \<open>
  The claim's reading of a trace: between any two status queries there is a sleep, that
  is, no query directly follows another.
\<close>

fun sleep_between_queries :: "'t io_event list \<Rightarrow> bool" where
  "sleep_between_queries (CheckStatus a # CheckStatus b # es) = False"
| "sleep_between_queries (e # es) = sleep_between_queries es"
| "sleep_between_queries [] = True"

text \<open>
  The service stops the loop at call \<open>k\<close> when that call raises or returns a terminal
  status.
\<close>

definition stops_at :: "(nat \<Rightarrow> py_error + job_status) \<Rightarrow> nat \<Rightarrow> bool" where
  "stops_at cs k = (case cs k of Inl e \<Rightarrow> True | Inr j \<Rightarrow> is_terminal j)"

section \<open>Paths\<close>

text \<open>
  The functions of \<^verbatim>\<open>os.path\<close> (\<^verbatim>\<open>posixpath\<close>) that the cache functions call, on
  strings, as the standard library defines them.
\<close>

definition startswith :: "string \<Rightarrow> string \<Rightarrow> bool" where
  "startswith s pre = (take (length pre) s = pre)"

definition endswith_sep :: "string \<Rightarrow> bool" where
  "endswith_sep s = (s \<noteq> [] \<and> last s = CHR ''/'')"

text \<open>\<^verbatim>\<open>s.split(sep)\<close> for a separator of one character: never the empty list.\<close>

fun split_on :: "char \<Rightarrow> string \<Rightarrow> string list" where
  "split_on c [] = [[]]"
| "split_on c (x # xs) =
     (if x = c then [] # split_on c xs
      else (x # hd (split_on c xs)) # tl (split_on c xs))"

text \<open>\<^verbatim>\<open>sep.join(parts)\<close>.\<close>

fun join_with :: "string \<Rightarrow> string list \<Rightarrow> string" where
  "join_with sep [] = []"
| "join_with sep [x] = x"
| "join_with sep (x # y # ys) = x @ sep @ join_with sep (y # ys)"

definition pardir :: string where
  "pardir = ''..''"

text \<open>
  \<^verbatim>\<open>os.path.join(a, *p)\<close>: a component that starts with a slash replaces what was
  joined so far; otherwise it is appended, after a slash unless the path so far is empty
  or ends with one.
\<close>

definition join_step :: "string \<Rightarrow> string \<Rightarrow> string" where
  "join_step b path =
     (if startswith b ''/'' then b
      else if path = [] \<or> endswith_sep path then path @ b
      else path @ ''/'' @ b)"

definition os_path_join :: "string \<Rightarrow> string list \<Rightarrow> string" where
  "os_path_join a p = fold join_step p a"

text \<open>
  \<^verbatim>\<open>os.path.normpath(path)\<close>: empty components and \<^verbatim>\<open>.\<close> are dropped, \<^verbatim>\<open>..\<close> removes the
  component before it when there is one that is not itself \<^verbatim>\<open>..\<close>, and is dropped at the
  root. Exactly two leading slashes are kept, three or more become one.
\<close>

definition norm_step :: "nat \<Rightarrow> string \<Rightarrow> string list \<Rightarrow> string list" where
  "norm_step initial_slashes part new_comps =
     (if part = [] \<or> part = ''.'' then new_comps
      else if part \<noteq> ''..'' \<or> (initial_slashes = 0 \<and> new_comps = []) \<or>
              (new_comps \<noteq> [] \<and> last new_comps = ''..'')
      then new_comps @ [part]
      else if new_comps \<noteq> [] then butlast new_comps
      else new_comps)"

definition os_path_normpath :: "string \<Rightarrow> string" where
  "os_path_normpath path =
     (if path = [] then ''.''
      else
        let initial_slashes =
              (if startswith path ''/''
               then (if startswith path ''//'' \<and> \<not> startswith path ''///'' then 2 else 1)
               else 0);
            comps = split_on (CHR ''/'') path;
            comps = fold (norm_step initial_slashes) comps [];
            path = join_with ''/'' comps;
            path = replicate initial_slashes (CHR ''/'') @ path
        in if path = [] then ''.'' else path)"

text \<open>
  \<^verbatim>\<open>os.path.abspath(path)\<close>; the current working directory of the process is the
  parameter \<open>cwd\<close>.
\<close>

definition os_path_abspath :: "string \<Rightarrow> string \<Rightarrow> string" where
  "os_path_abspath cwd path =
     os_path_normpath (if startswith path ''/'' then path else os_path_join cwd [path])"

section \<open>The file system and the cache copies\<close>

text \<open>
  The file system maps the components of a normalised absolute path to what is there: a
  directory, or a file with its content. The root is the empty list of components.
\<close>

datatype node = Directory | File string

type_synonym filesystem = "string list \<rightharpoonup> node"

definition path_components :: "string \<Rightarrow> string list" where
  "path_components p = filter (\<lambda>c. c \<noteq> []) (split_on (CHR ''/'') p)"


text \<open>
  \<^verbatim>\<open>copy_workspace_from_cache\<close>. \<^verbatim>\<open>os.system\<close> hands the command line to a shell and
  returns the exit status; what the shell does to the file system is the parameter
  \<open>os_system\<close>. The exit status is not read, and the function returns \<^verbatim>\<open>None\<close>.
\<close>

definition copy_workspace_from_cache ::
  "(string \<Rightarrow> 'w \<Rightarrow> int \<times> 'w) \<Rightarrow> string \<Rightarrow> string \<Rightarrow> 'w \<Rightarrow> (py_error + unit) \<times> 'w" where
  "copy_workspace_from_cache os_system result_path workflow_workspace w =
     (let (exit_status, w') =
            os_system (''cp -R '' @ os_path_join result_path [''*''] @ '' '' @ workflow_workspace) w
      in (Inr (), w'))"


text \<open>
  The archive directory as the specification words it: \<^verbatim>\<open><workspace>/../archive/<jobId>\<close>,
  resolved to an absolute path.
\<close>

definition archive_path :: "string \<Rightarrow> string \<Rightarrow> string \<Rightarrow> string" where
  "archive_path cwd workflow_workspace job_id =
     os_path_abspath cwd (os_path_join workflow_workspace [pardir, ''archive'', job_id])"

text \<open>
  A plain path component is a name: not empty, without a slash, and neither \<^verbatim>\<open>.\<close> nor
  \<^verbatim>\<open>..\<close>. \<open>rooted cs\<close> is the absolute path with the components \<open>cs\<close>.
\<close>

definition plain :: "string \<Rightarrow> bool" where
  "plain c = (c \<noteq> [] \<and> CHR ''/'' \<notin> set c \<and> c \<noteq> ''.'' \<and> c \<noteq> ''..'')"

definition rooted :: "string list \<Rightarrow> string" where
  "rooted cs = concat (map (\<lambda>c. ''/'' @ c) cs)"

section \<open>Properties of the step range selection\<close>

lemma find_enumerate:
  "List.find (\<lambda>(i, x). P x) (List.enumerate n xs) =
     (if list_ex P xs
      then Some (n + first_position P xs, hd (dropWhile (\<lambda>x. \<not> P x) xs))
      else None)"
  by (induction xs arbitrary: n) (simp_all add: first_position_def)

lemma py_next_first_position:
  "py_next f P xs dflt = (if list_ex P xs then f (first_position P xs) else dflt)"
  by (simp add: py_next_def find_enumerate)

lemma first_position_less:
  "list_ex P xs \<Longrightarrow> first_position P xs < length xs"
  by (induction xs) (auto simp: first_position_def)

lemma first_position_nth:
  "list_ex P xs \<Longrightarrow> P (xs ! first_position P xs)"
  by (induction xs) (auto simp: first_position_def)

lemma first_position_least:
  "i < first_position P xs \<Longrightarrow> \<not> P (xs ! i)"
  unfolding first_position_def
  by (metis nth_mem set_takeWhileD takeWhile_nth)

lemma py_slice_nth:
  "j \<le> length xs \<Longrightarrow> py_slice xs i j = map (\<lambda>k. xs ! k) [i..<j]"
  by (simp add: py_slice_def list_eq_iff_nth_eq)

lemma spec_target_index_le: "spec_target_index sts t \<le> length sts"
  using first_position_less [of "name_matches (the t)" sts]
  by (cases t) (auto simp: spec_target_index_def)

lemma selection_eq:
  "get_targeted_workflow_steps wj target_step from_step =
     (if spec_from_index (steps wj) from_step \<le> spec_target_index (steps wj) target_step
      then py_slice (steps wj) (spec_from_index (steps wj) from_step)
             (spec_target_index (steps wj) target_step)
      else steps wj)"
proof -
  have f: "(if truthy_str from_step
            then py_next (\<lambda>i. i) (\<lambda>st. lower (name st) = lower (the from_step)) (steps wj) 0
            else 0) = spec_from_index (steps wj) from_step"
    by (cases from_step)
       (simp_all add: spec_from_index_def py_next_first_position name_matches_def [abs_def])
  have t: "(if truthy_str target_step
            then py_next (\<lambda>i. i + 1) (\<lambda>st. lower (name st) = lower (the target_step))
                   (steps wj) (length (steps wj))
            else length (steps wj)) = spec_target_index (steps wj) target_step"
    by (cases target_step)
       (simp_all add: spec_target_index_def py_next_first_position name_matches_def [abs_def])
  show ?thesis
    unfolding get_targeted_workflow_steps_def Let_def f t by simp
qed


lemma lower_examples:
  "lower ''gen'' = ''gen''" "lower ''Fit'' = ''fit''" "lower ''fit'' = ''fit''"
  "lower ''plot'' = ''plot''" "lower ''PLOT'' = ''plot''"
  by (simp_all add: lower_def lower_char_def)


text \<open>
  C4. The claim promises the full step list whenever \<open>from_step\<close> comes after
  \<open>target_step\<close>, and a slice that is not empty otherwise. The comparison in the code is
  between the position of \<open>from_step\<close> and one past the position of \<open>target_step\<close>, so
  a \<open>from_step\<close> that directly follows \<open>target_step\<close> passes the test, and the function
  returns the empty slice instead of the full list that its own error message announces
  ("From step has to be the same as target or before target step. Executing full
  workflow.").
\<close>

theorem get_targeted_workflow_steps_from_after_target:
  "get_targeted_workflow_steps
     \<lparr>steps = [\<lparr>name = ''gen'', commands = [''a'']\<rparr>,
               \<lparr>name = ''fit'', commands = [''b'']\<rparr>]\<rparr>
     (Some ''gen'') (Some ''fit'') = []"
  by (simp add: get_targeted_workflow_steps_def py_next_def py_slice_def lower_examples)

text \<open>
  The selection is empty exactly when the two indices coincide: when the step list is
  empty, or when \<open>from_step\<close> is found directly after the step that \<open>target_step\<close> names.
\<close>

theorem selection_empty_iff:
  "get_targeted_workflow_steps wj target_step from_step = [] \<longleftrightarrow>
     spec_from_index (steps wj) from_step = spec_target_index (steps wj) target_step"
proof -
  have le: "spec_target_index (steps wj) target_step \<le> length (steps wj)"
    by (rule spec_target_index_le)
  have z: "steps wj = [] \<Longrightarrow> spec_from_index (steps wj) from_step = 0"
    by (cases from_step) (simp_all add: spec_from_index_def)
  show ?thesis
    using le z by (auto simp: selection_eq py_slice_def)
qed

text \<open>
  Whatever the names, the result is a contiguous slice of the step list; the full list is
  the slice from 0 to the length.
\<close>

theorem selection_is_slice:
  "\<exists>i j. i \<le> j \<and> j \<le> length (steps wj) \<and>
     get_targeted_workflow_steps wj target_step from_step = py_slice (steps wj) i j"
proof (cases "spec_from_index (steps wj) from_step \<le> spec_target_index (steps wj) target_step")
  case True
  then show ?thesis
    using spec_target_index_le [of "steps wj" target_step]
    by (intro exI [of _ "spec_from_index (steps wj) from_step"]
              exI [of _ "spec_target_index (steps wj) target_step"])
       (simp add: selection_eq)
next
  case False
  then show ?thesis
    by (intro exI [of _ 0] exI [of _ "length (steps wj)"]) (simp add: selection_eq py_slice_def)
qed

section \<open>Properties of the progress publishers\<close>

lemma is_final_command_eq:
  "steps wj \<noteq> [] \<Longrightarrow> (st = last (steps wj) \<longrightarrow> commands st \<noteq> []) \<Longrightarrow>
   is_final_command wj st command =
     Inr (st = last (steps wj) \<and> command = last (commands st))"
  by (cases "steps wj"; cases "commands st")
     (auto simp: is_final_command_def simp del: last.simps)

lemma is_final_command_no_steps:
  "steps wj = [] \<Longrightarrow> is_final_command wj st command = Inl IndexError"
  by (simp add: is_final_command_def)

lemma publish_job_success_event:
  assumes "steps wj \<noteq> []"
    and "st = last (steps wj) \<longrightarrow> commands st \<noteq> []"
  shows "publish_job_success jid spec workspace wj st command publisher uuid cache_dir environ =
           Inr (publisher @
             [\<lparr>published_uuid = uuid,
               published_status =
                 (if st = last (steps wj) \<and> command = last (commands st) then 2 else 1),
               published_message =
                 \<lparr>progress = Some (build_progress_message None None
                                     (Some \<lparr>total = 1, job_ids = [jid]\<rparr>) None None),
                  caching_info =
                    (if truthy_str cache_dir
                     then Some (build_caching_info_message spec jid workspace st (the cache_dir))
                     else None),
                  pod_name = Some (environ ''WORKFLOW_POD_NAME'')\<rparr>\<rparr>])"
  using assms
  by (simp add: publish_job_success_def is_final_command_eq
        publish_workflow_status_def empty_message_def getenv_def Let_def)

lemma publish_cache_copy_event:
  assumes "steps wj \<noteq> []"
    and "st = last (steps wj) \<longrightarrow> commands st \<noteq> []"
  shows "publish_cache_copy jid st wj command publisher uuid =
           Inr (publisher @
             [\<lparr>published_uuid = uuid,
               published_status =
                 (if st = last (steps wj) \<and> command = last (commands st) then 2 else 1),
               published_message =
                 \<lparr>progress = Some (build_progress_message None None
                                     (Some \<lparr>total = 1, job_ids = [jid]\<rparr>) None
                                     (Some \<lparr>total = 1, job_ids = [jid]\<rparr>)),
                  caching_info = None,
                  pod_name = None\<rparr>\<rparr>])"
  using assms
  by (simp add: publish_cache_copy_def is_final_command_eq
        publish_workflow_status_def empty_message_def Let_def)




text \<open>
  C10 (amended). For every workflow json whose last step entry has an equal entry earlier
  in the list, completing the last command of the earlier entry publishes status 2
  through both publishers, although later steps remain.
\<close>

theorem duplicate_of_last_step_finishes_early:
  assumes "i < length (steps wj) - 1"
    and "steps wj ! i = last (steps wj)"
    and "commands (steps wj ! i) \<noteq> []"
  shows "publish_job_success jid spec workspace wj (steps wj ! i)
             (last (commands (steps wj ! i))) publisher uuid cache_dir environ =
           Inr (publisher @
             [\<lparr>published_uuid = uuid, published_status = 2,
               published_message =
                 \<lparr>progress = Some (build_progress_message None None
                                     (Some \<lparr>total = 1, job_ids = [jid]\<rparr>) None None),
                  caching_info =
                    (if truthy_str cache_dir
                     then Some (build_caching_info_message spec jid workspace (steps wj ! i)
                                  (the cache_dir))
                     else None),
                  pod_name = Some (environ ''WORKFLOW_POD_NAME'')\<rparr>\<rparr>]) \<and>
         publish_cache_copy jid (steps wj ! i) wj (last (commands (steps wj ! i))) publisher
             uuid =
           Inr (publisher @
             [\<lparr>published_uuid = uuid, published_status = 2,
               published_message =
                 \<lparr>progress = Some (build_progress_message None None
                                     (Some \<lparr>total = 1, job_ids = [jid]\<rparr>) None
                                     (Some \<lparr>total = 1, job_ids = [jid]\<rparr>)),
                  caching_info = None,
                  pod_name = None\<rparr>\<rparr>])"
proof -
  from assms(1) have ne: "steps wj \<noteq> []" by auto
  from assms(3) have c: "steps wj ! i = last (steps wj) \<longrightarrow> commands (steps wj ! i) \<noteq> []"
    by (intro impI)
  have "steps wj ! i = last (steps wj) \<and>
        last (commands (steps wj ! i)) = last (commands (steps wj ! i))"
    using assms(2) by (intro conjI refl)
  then show ?thesis
    using publish_job_success_event [OF ne c, of jid spec workspace
            "last (commands (steps wj ! i))" publisher uuid cache_dir environ]
          publish_cache_copy_event [OF ne c, of jid "last (commands (steps wj ! i))"
            publisher uuid]
    by (simp only: if_True simp_thms)
qed

theorem duplicate_of_last_step_finishes_early_witness:
  "(0::nat) < length (steps \<lparr>steps = [\<lparr>name = ''fit'', commands = [''echo a'']\<rparr>,
                                     \<lparr>name = ''fit'', commands = [''echo a'']\<rparr>]\<rparr>) - 1 \<and>
   steps \<lparr>steps = [\<lparr>name = ''fit'', commands = [''echo a'']\<rparr>,
                  \<lparr>name = ''fit'', commands = [''echo a'']\<rparr>]\<rparr> ! 0 =
     last (steps \<lparr>steps = [\<lparr>name = ''fit'', commands = [''echo a'']\<rparr>,
                          \<lparr>name = ''fit'', commands = [''echo a'']\<rparr>]\<rparr>) \<and>
   publish_cache_copy ''job-1'' \<lparr>name = ''fit'', commands = [''echo a'']\<rparr>
       \<lparr>steps = [\<lparr>name = ''fit'', commands = [''echo a'']\<rparr>,
                 \<lparr>name = ''fit'', commands = [''echo a'']\<rparr>]\<rparr>
       ''echo a'' ([] :: (unit, unit) publisher) ''uuid'' =
     Inr [\<lparr>published_uuid = ''uuid'', published_status = 2,
           published_message =
             \<lparr>progress = Some (build_progress_message None None
                                 (Some \<lparr>total = 1, job_ids = [''job-1'']\<rparr>) None
                                 (Some \<lparr>total = 1, job_ids = [''job-1'']\<rparr>)),
              caching_info = None, pod_name = None\<rparr>\<rparr>]"
  using duplicate_of_last_step_finishes_early
          [of 0 "\<lparr>steps = [\<lparr>name = ''fit'', commands = [''echo a'']\<rparr>,
                           \<lparr>name = ''fit'', commands = [''echo a'']\<rparr>]\<rparr>"
              "''job-1''" "()" "''/ws''" "[] :: (unit, unit) publisher" "''uuid''"
              None Map.empty]
  by simp

text \<open>
  The claim as it was stated covers every pair of equal entries. When the later entry of
  the pair is not the last step, completing the last command of the earlier entry
  publishes status 1.
\<close>

theorem duplicate_not_last_counterexample:
  "steps \<lparr>steps = [\<lparr>name = ''fit'', commands = [''echo a'']\<rparr>,
                  \<lparr>name = ''fit'', commands = [''echo a'']\<rparr>,
                  \<lparr>name = ''plot'', commands = [''echo b'']\<rparr>]\<rparr> ! 0 =
   steps \<lparr>steps = [\<lparr>name = ''fit'', commands = [''echo a'']\<rparr>,
                  \<lparr>name = ''fit'', commands = [''echo a'']\<rparr>,
                  \<lparr>name = ''plot'', commands = [''echo b'']\<rparr>]\<rparr> ! 1 \<and>
   publish_job_success ''job-1'' () ''/ws''
       \<lparr>steps = [\<lparr>name = ''fit'', commands = [''echo a'']\<rparr>,
                 \<lparr>name = ''fit'', commands = [''echo a'']\<rparr>,
                 \<lparr>name = ''plot'', commands = [''echo b'']\<rparr>]\<rparr>
       \<lparr>name = ''fit'', commands = [''echo a'']\<rparr> ''echo a''
       ([] :: (unit, unit) publisher) ''uuid'' None Map.empty =
     Inr [\<lparr>published_uuid = ''uuid'', published_status = 1,
           published_message =
             \<lparr>progress = Some (build_progress_message None None
                                 (Some \<lparr>total = 1, job_ids = [''job-1'']\<rparr>) None None),
              caching_info = None, pod_name = Some None\<rparr>\<rparr>] \<and>
   publish_cache_copy ''job-1'' \<lparr>name = ''fit'', commands = [''echo a'']\<rparr>
       \<lparr>steps = [\<lparr>name = ''fit'', commands = [''echo a'']\<rparr>,
                 \<lparr>name = ''fit'', commands = [''echo a'']\<rparr>,
                 \<lparr>name = ''plot'', commands = [''echo b'']\<rparr>]\<rparr>
       ''echo a'' ([] :: (unit, unit) publisher) ''uuid'' =
     Inr [\<lparr>published_uuid = ''uuid'', published_status = 1,
           published_message =
             \<lparr>progress = Some (build_progress_message None None
                                 (Some \<lparr>total = 1, job_ids = [''job-1'']\<rparr>) None
                                 (Some \<lparr>total = 1, job_ids = [''job-1'']\<rparr>)),
              caching_info = None, pod_name = None\<rparr>\<rparr>]"
  by (simp add: publish_job_success_def publish_cache_copy_def is_final_command_def
        publish_workflow_status_def empty_message_def getenv_def Let_def)

lemma fold_add_length:
  "fold (\<lambda>st acc. acc + int (length (commands st))) sts a =
     a + (\<Sum>st\<leftarrow>sts. int (length (commands st)))"
  by (induction sts arbitrary: a) simp_all

text \<open>
  C8. For every step list, the start publisher publishes exactly one event: status 1, the
  total bucket holding the sum of the numbers of commands of all steps of the list it is
  given and no job id. The function has no other input that depends on the steps, so no
  range selection can change the total.
\<close>

theorem publish_workflow_start_total:
  "publish_workflow_start sts uuid publisher environ =
     publisher @
       [\<lparr>published_uuid = uuid, published_status = 1,
         published_message =
           \<lparr>progress = Some \<lparr>progress_total =
                                Some \<lparr>total = (\<Sum>st\<leftarrow>sts. int (length (commands st))),
                                      job_ids = []\<rparr>,
                              progress_running = None, progress_finished = None,
                              progress_failed = None, progress_cached = None\<rparr>,
            caching_info = None,
            pod_name = Some (environ ''WORKFLOW_POD_NAME'')\<rparr>\<rparr>]"
  by (simp add: publish_workflow_start_def publish_workflow_status_def empty_message_def
        build_progress_message_def getenv_def fold_add_length Let_def)

text \<open>
  C9. For every failure report, the failure publisher publishes one event with status 3.
  When a job id is supplied (a string that is not empty), the failed bucket holds exactly
  that id with count 1; when there is none, no failed bucket is built: the bucket is
  absent, not a bucket around a null id.
\<close>

theorem publish_workflow_failure_bucket:
  "publish_workflow_failure jid uuid publisher =
     publisher @
       [\<lparr>published_uuid = uuid, published_status = 3,
         published_message =
           \<lparr>progress = Some \<lparr>progress_total = None, progress_running = None,
                              progress_finished = None,
                              progress_failed =
                                (case jid of
                                   None \<Rightarrow> None
                                 | Some j \<Rightarrow>
                                     if j = [] then None
                                     else Some \<lparr>total = 1, job_ids = [j]\<rparr>),
                              progress_cached = None\<rparr>,
            caching_info = None,
            pod_name = None\<rparr>\<rparr>]"
  by (cases jid)
     (simp_all add: publish_workflow_failure_def publish_workflow_status_def
        empty_message_def build_progress_message_def Let_def)

section \<open>Properties of the cache lookup\<close>

text \<open>
  C3 (amended). For every cache-service response whose parsed body is a dictionary, the
  lookup returns a miss (the empty dictionary) without raising when the body holds a
  \<^verbatim>\<open>"cached"\<close> field that is not true, returns the body itself when the field is true, and
  raises \<^verbatim>\<open>KeyError\<close> when the body has no \<^verbatim>\<open>"cached"\<close> key.
\<close>

theorem check_cache_by_cached_field:
  assumes "check_if_cached spec st ws = Inr (JObj body)"
  shows "check_cache check_if_cached spec st ws =
           (case map_of body ''cached'' of
              None \<Rightarrow> Inl KeyError
            | Some c \<Rightarrow> if truthy c then Inr (JObj body) else Inr (JObj []))"
  using assms by (simp add: check_cache_def split: option.splits)

theorem check_cache_by_cached_field_witness:
  "check_cache (\<lambda>spec st ws. Inr (JObj [(''cached'', JBool False)])) ()
     \<lparr>name = ''fit'', commands = [''echo a'']\<rparr> ''/ws'' = Inr (JObj []) \<and>
   check_cache (\<lambda>spec st ws. Inr (JObj [(''cached'', JBool True), (''result_path'', JStr ''/archive/123'')])) ()
     \<lparr>name = ''fit'', commands = [''echo a'']\<rparr> ''/ws'' =
     Inr (JObj [(''cached'', JBool True), (''result_path'', JStr ''/archive/123'')])"
  using check_cache_by_cached_field
          [of "\<lambda>spec st ws. Inr (JObj [(''cached'', JBool False)])" "()"
              "\<lparr>name = ''fit'', commands = [''echo a'']\<rparr>" "''/ws''"
              "[(''cached'', JBool False)]"]
        check_cache_by_cached_field
          [of "\<lambda>spec st ws. Inr (JObj [(''cached'', JBool True),
                                       (''result_path'', JStr ''/archive/123'')])" "()"
              "\<lparr>name = ''fit'', commands = [''echo a'']\<rparr>" "''/ws''"
              "[(''cached'', JBool True), (''result_path'', JStr ''/archive/123'')]"]
  by simp

text \<open>
  The claim as it was stated includes the bodies without a \<^verbatim>\<open>"cached"\<close> key. On such a
  body the lookup raises \<^verbatim>\<open>KeyError\<close>; it does not return the empty result.
\<close>

theorem check_cache_absent_key_counterexample:
  "check_cache (\<lambda>spec st ws. Inr (JObj [(''job_id'', JStr ''123'')])) ()
     \<lparr>name = ''fit'', commands = [''echo a'']\<rparr> ''/ws'' = Inl KeyError \<and>
   check_cache (\<lambda>spec st ws. Inr (JObj [])) ()
     \<lparr>name = ''fit'', commands = [''echo a'']\<rparr> ''/ws'' \<noteq> Inr (JObj [])"
  by (simp add: check_cache_def)

section \<open>Properties of the polling loop\<close>

lemma poll_loop_terminal:
  "is_terminal js \<Longrightarrow> poll_loop cs jid d n js tr = Some (Inr js, tr)"
  by (subst poll_loop.simps) (auto simp: is_terminal_def)

lemma poll_loop_step:
  "\<not> is_terminal js \<Longrightarrow>
   poll_loop cs jid d n js tr =
     (case cs n of
        Inl e \<Rightarrow> Some (Inl e, tr @ [CheckStatus jid])
      | Inr js' \<Rightarrow> poll_loop cs jid d (Suc n) js' (tr @ [CheckStatus jid, Sleep d]))"
  by (subst poll_loop.simps) (simp add: is_terminal_def)

lemma poll_loop_run:
  "\<forall>i<k. \<exists>j. cs (n + i) = Inr j \<and> \<not> is_terminal j \<Longrightarrow> cs (n + k) = Inr jsF \<Longrightarrow>
   is_terminal jsF \<Longrightarrow> \<not> is_terminal js \<Longrightarrow>
   poll_loop cs jid d n js tr =
     Some (Inr jsF, tr @ concat (replicate (Suc k) [CheckStatus jid, Sleep d]))"
proof (induction k arbitrary: n js tr)
  case 0
  then show ?case
    by (simp add: poll_loop_step poll_loop_terminal)
next
  case (Suc k)
  from Suc.prems(1) obtain j0 where j0: "cs n = Inr j0" "\<not> is_terminal j0"
    by force
  have "\<forall>i<k. \<exists>j. cs (Suc n + i) = Inr j \<and> \<not> is_terminal j"
    using Suc.prems(1) by (metis Suc_less_eq add_Suc_shift)
  moreover have "cs (Suc n + k) = Inr jsF" using Suc.prems(2) by simp
  ultimately have "poll_loop cs jid d (Suc n) j0 (tr @ [CheckStatus jid, Sleep d]) =
     Some (Inr jsF, (tr @ [CheckStatus jid, Sleep d]) @
             concat (replicate (Suc k) [CheckStatus jid, Sleep d]))"
    using Suc.IH [of "Suc n" j0] Suc.prems(3) j0(2) by blast
  then show ?case
    using Suc.prems(4) j0 by (simp add: poll_loop_step)
qed


lemma poll_loop_returns:
  assumes "poll_loop cs jid d n js tr = Some y"
  shows "(\<forall>jsF tr'. y = (Inr jsF, tr') \<longrightarrow>
        (is_terminal js \<and> jsF = js \<and> tr' = tr) \<or>
        (\<not> is_terminal js \<and>
         (\<exists>k. (\<forall>i<k. \<exists>j. cs (n + i) = Inr j \<and> \<not> is_terminal j) \<and>
              cs (n + k) = Inr jsF \<and> is_terminal jsF \<and>
              tr' = tr @ concat (replicate (Suc k) [CheckStatus jid, Sleep d]))))"
  using assms
proof (induction cs jid d n js tr y rule: poll_loop.raw_induct [rotated 1, consumes 1, case_names body])
  case (body f cs jid d n js tr y)
  show ?case
  proof (intro allI impI)
    fix jsF tr'
    assume y: "y = (Inr jsF, tr')"
    show "(is_terminal js \<and> jsF = js \<and> tr' = tr) \<or>
        (\<not> is_terminal js \<and>
         (\<exists>k. (\<forall>i<k. \<exists>j. cs (n + i) = Inr j \<and> \<not> is_terminal j) \<and>
              cs (n + k) = Inr jsF \<and> is_terminal jsF \<and>
              tr' = tr @ concat (replicate (Suc k) [CheckStatus jid, Sleep d])))"
    proof (cases "is_terminal js")
      case True
      with body(2) y show ?thesis by (auto simp: is_terminal_def)
    next
      case False
      show ?thesis
      proof (cases "cs n")
        case (Inl e)
        with body(2) y False show ?thesis by (simp add: is_terminal_def)
      next
        case (Inr j0)
        with body(2) False
        have run: "f cs jid d (Suc n) j0 (tr @ [CheckStatus jid, Sleep d]) = Some y"
          by (simp add: is_terminal_def)
        from body(1) [OF run] y
        consider (stop) "is_terminal j0" "jsF = j0" "tr' = tr @ [CheckStatus jid, Sleep d]"
          | (go) k where "\<not> is_terminal j0"
              "\<forall>i<k. \<exists>j. cs (Suc n + i) = Inr j \<and> \<not> is_terminal j"
              "cs (Suc n + k) = Inr jsF" "is_terminal jsF"
              "tr' = (tr @ [CheckStatus jid, Sleep d]) @
                  concat (replicate (Suc k) [CheckStatus jid, Sleep d])"
          by blast
        then show ?thesis
        proof cases
          case stop
          with Inr False show ?thesis
            by (intro disjI2 conjI exI [of _ 0]) simp_all
        next
          case go
          have "\<forall>i<Suc k. \<exists>j. cs (n + i) = Inr j \<and> \<not> is_terminal j"
          proof (intro allI impI)
            fix i assume "i < Suc k"
            then show "\<exists>j. cs (n + i) = Inr j \<and> \<not> is_terminal j"
              using go(1,2) Inr by (cases i) auto
          qed
          with go False show ?thesis
            by (intro disjI2 conjI exI [of _ "Suc k"]) simp_all
        qed
      qed
    qed
  qed
qed

lemma not_stops_at: "\<not> stops_at cs k \<longleftrightarrow> (\<exists>j. cs k = Inr j \<and> \<not> is_terminal j)"
  by (cases "cs k") (simp_all add: stops_at_def)

lemma poll_loop_run_error:
  "\<forall>i<k. \<exists>j. cs (n + i) = Inr j \<and> \<not> is_terminal j \<Longrightarrow> cs (n + k) = Inl e \<Longrightarrow>
   \<not> is_terminal js \<Longrightarrow>
   poll_loop cs jid d n js tr =
     Some (Inl e, tr @ concat (replicate k [CheckStatus jid, Sleep d]) @ [CheckStatus jid])"
proof (induction k arbitrary: n js tr)
  case 0
  then show ?case by (simp add: poll_loop_step)
next
  case (Suc k)
  from Suc.prems(1) obtain j0 where j0: "cs n = Inr j0" "\<not> is_terminal j0"
    by force
  have "\<forall>i<k. \<exists>j. cs (Suc n + i) = Inr j \<and> \<not> is_terminal j"
    using Suc.prems(1) by (metis Suc_less_eq add_Suc_shift)
  moreover have "cs (Suc n + k) = Inl e" using Suc.prems(2) by simp
  ultimately have "poll_loop cs jid d (Suc n) j0 (tr @ [CheckStatus jid, Sleep d]) =
     Some (Inl e, (tr @ [CheckStatus jid, Sleep d]) @
             concat (replicate k [CheckStatus jid, Sleep d]) @ [CheckStatus jid])"
    using Suc.IH [of "Suc n" j0] j0(2) by blast
  then show ?case
    using Suc.prems(3) j0 by (simp add: poll_loop_step)
qed

lemma poll_loop_stops:
  assumes "poll_loop cs jid d n js tr = Some y"
  shows "is_terminal js \<or> (\<exists>k. stops_at cs (n + k))"
  using assms
proof (induction cs jid d n js tr y rule: poll_loop.raw_induct [rotated 1, consumes 1, case_names body])
  case (body f cs jid d n js tr y)
  show ?case
  proof (cases "is_terminal js")
    case True
    then show ?thesis by simp
  next
    case False
    show ?thesis
    proof (cases "cs n")
      case (Inl e)
      then have "stops_at cs (n + 0)" by (simp add: stops_at_def)
      then show ?thesis by blast
    next
      case (Inr j0)
      with body(2) False
      have run: "f cs jid d (Suc n) j0 (tr @ [CheckStatus jid, Sleep d]) = Some y"
        by (simp add: is_terminal_def)
      from body(1) [OF run] consider "is_terminal j0" | k where "stops_at cs (Suc n + k)"
        by blast
      then show ?thesis
      proof cases
        case 1
        with Inr have "stops_at cs (n + 0)" by (simp add: stops_at_def)
        then show ?thesis by blast
      next
        case 2
        then have "stops_at cs (n + Suc k)" by simp
        then show ?thesis by blast
      qed
    qed
  qed
qed

text \<open>
  C5 (amended). For every job id and every behaviour of the service, the polling function
  returns a status exactly when the service, after \<open>k\<close> answers that are not terminal,
  gives a terminal one (finished, failed or stopped), and it returns that status. Its
  first action is a status query, before any wait. When the first answer is not terminal
  the second query follows directly, with no sleep between the two; after the second
  query and after every later one, also the last, it sleeps for the polling interval.
  The trace is one query followed by \<open>k\<close> pairs of a query and a sleep.
\<close>

theorem poll_job_status_trace:
  "poll_job_status cs jid d = Some (Inr js, tr) \<longleftrightarrow>
     (\<exists>k. (\<forall>i<k. \<exists>j. cs i = Inr j \<and> \<not> is_terminal j) \<and>
          cs k = Inr js \<and> is_terminal js \<and>
          tr = CheckStatus jid # concat (replicate k [CheckStatus jid, Sleep d]))"
  (is "?L \<longleftrightarrow> ?R")
proof
  assume L: ?L
  then obtain j0 where j0: "cs 0 = Inr j0"
    by (cases "cs 0") (auto simp: poll_job_status_def)
  with L have run: "poll_loop cs jid d 1 j0 [CheckStatus jid] = Some (Inr js, tr)"
    by (simp add: poll_job_status_def)
  from poll_loop_returns [OF run]
  consider (stop) "is_terminal j0" "js = j0" "tr = [CheckStatus jid]"
    | (go) k where "\<not> is_terminal j0"
        "\<forall>i<k. \<exists>j. cs (1 + i) = Inr j \<and> \<not> is_terminal j"
        "cs (1 + k) = Inr js" "is_terminal js"
        "tr = [CheckStatus jid] @ concat (replicate (Suc k) [CheckStatus jid, Sleep d])"
    by blast
  then show ?R
  proof cases
    case stop
    with j0 show ?thesis by (intro exI [of _ 0]) simp
  next
    case go
    have "\<forall>i<Suc k. \<exists>j. cs i = Inr j \<and> \<not> is_terminal j"
    proof (intro allI impI)
      fix i assume "i < Suc k"
      then show "\<exists>j. cs i = Inr j \<and> \<not> is_terminal j"
        using go(1,2) j0 by (cases i) auto
    qed
    with go show ?thesis by (intro exI [of _ "Suc k"]) simp
  qed
next
  assume ?R
  then obtain k where k: "\<forall>i<k. \<exists>j. cs i = Inr j \<and> \<not> is_terminal j"
      "cs k = Inr js" "is_terminal js"
      "tr = CheckStatus jid # concat (replicate k [CheckStatus jid, Sleep d])"
    by blast
  show ?L
  proof (cases k)
    case 0
    with k show ?thesis
      by (simp add: poll_job_status_def poll_loop_terminal)
  next
    case (Suc m)
    from k(1) Suc obtain j0 where j0: "cs 0 = Inr j0" "\<not> is_terminal j0" by auto
    have "\<forall>i<m. \<exists>j. cs (1 + i) = Inr j \<and> \<not> is_terminal j"
      using k(1) Suc by simp
    moreover have "cs (1 + m) = Inr js" using k(2) Suc by simp
    ultimately have "poll_loop cs jid d 1 j0 [CheckStatus jid] =
        Some (Inr js, [CheckStatus jid] @ concat (replicate (Suc m) [CheckStatus jid, Sleep d]))"
      using poll_loop_run [of m cs 1 js j0 jid d "[CheckStatus jid]"] k(3) j0(2) by blast
    with j0 k(4) Suc show ?thesis by (simp add: poll_job_status_def)
  qed
qed

theorem poll_job_status_trace_witness:
  "poll_job_status (\<lambda>n. if n < 2 then Inr \<lparr>status = ''running''\<rparr> else Inr \<lparr>status = ''finished''\<rparr>)
     ''job'' (3::nat) =
   Some (Inr \<lparr>status = ''finished''\<rparr>,
         [CheckStatus ''job'', CheckStatus ''job'', Sleep 3, CheckStatus ''job'', Sleep 3])"
proof -
  let ?cs = "\<lambda>n::nat. if n < 2 then Inr \<lparr>status = ''running''\<rparr> else Inr \<lparr>status = ''finished''\<rparr>"
  have "(\<forall>i<2. \<exists>j. ?cs i = Inr j \<and> \<not> is_terminal j) \<and>
        ?cs 2 = Inr \<lparr>status = ''finished''\<rparr> \<and> is_terminal \<lparr>status = ''finished''\<rparr> \<and>
        [CheckStatus ''job'', CheckStatus ''job'', Sleep 3, CheckStatus ''job'', Sleep (3::nat)] =
          CheckStatus ''job'' # concat (replicate 2 [CheckStatus ''job'', Sleep 3])"
    by (simp add: is_terminal_def numeral_2_eq_2)
  then show ?thesis
    using poll_job_status_trace [of ?cs "''job''" "3::nat" "\<lparr>status = ''finished''\<rparr>"
            "[CheckStatus ''job'', CheckStatus ''job'', Sleep 3, CheckStatus ''job'', Sleep 3]"]
    by blast
qed

text \<open>
  The claim as it was stated puts a sleep between every two status queries. When the
  first answer is not terminal and the second is, the trace is two queries in a row and
  then one sleep.
\<close>

theorem poll_job_status_no_sleep_counterexample:
  "poll_job_status (\<lambda>n. if n = 0 then Inr \<lparr>status = ''running''\<rparr> else Inr \<lparr>status = ''finished''\<rparr>)
     ''job'' (3::nat) =
   Some (Inr \<lparr>status = ''finished''\<rparr>, [CheckStatus ''job'', CheckStatus ''job'', Sleep 3]) \<and>
   \<not> sleep_between_queries [CheckStatus ''job'', CheckStatus ''job'', Sleep (3::nat)]"
  by (simp add: poll_job_status_def poll_loop_step poll_loop_terminal is_terminal_def)

text \<open>
  The loop has no bound of its own: the polling function never returns exactly when every
  answer of the service is a status that is not terminal.
\<close>

theorem poll_job_status_never_returns_iff:
  "poll_job_status cs jid d = None \<longleftrightarrow> (\<forall>i. \<exists>j. cs i = Inr j \<and> \<not> is_terminal j)"
proof
  assume none: "poll_job_status cs jid d = None"
  show "\<forall>i. \<exists>j. cs i = Inr j \<and> \<not> is_terminal j"
  proof (rule ccontr)
    assume "\<not> (\<forall>i. \<exists>j. cs i = Inr j \<and> \<not> is_terminal j)"
    then obtain i where "stops_at cs i" by (auto simp: not_stops_at [symmetric])
    then obtain k where k: "stops_at cs k" "\<forall>i<k. \<not> stops_at cs i"
      using exists_least_iff [of "stops_at cs"] by blast
    then have before: "\<forall>i<k. \<exists>j. cs i = Inr j \<and> \<not> is_terminal j"
      by (simp add: not_stops_at)
    have "poll_job_status cs jid d \<noteq> None"
    proof (cases k)
      case 0
      with k(1) show ?thesis
        by (cases "cs 0") (simp_all add: poll_job_status_def stops_at_def poll_loop_terminal)
    next
      case (Suc m)
      from before Suc obtain j0 where j0: "cs 0 = Inr j0" "\<not> is_terminal j0" by auto
      have b: "\<forall>i<m. \<exists>j. cs (1 + i) = Inr j \<and> \<not> is_terminal j"
        using before Suc by simp
      show ?thesis
      proof (cases "cs k")
        case (Inl e)
        then have "cs (1 + m) = Inl e" using Suc by simp
        from poll_loop_run_error [OF b this j0(2), of jid d "[CheckStatus jid]"] j0
        show ?thesis by (simp add: poll_job_status_def)
      next
        case (Inr js)
        with k(1) have t: "is_terminal js" by (simp add: stops_at_def)
        from Inr have "cs (1 + m) = Inr js" using Suc by simp
        from poll_loop_run [OF b this t j0(2), of jid d "[CheckStatus jid]"] j0
        show ?thesis by (simp add: poll_job_status_def)
      qed
    qed
    with none show False by contradiction
  qed
next
  assume all: "\<forall>i. \<exists>j. cs i = Inr j \<and> \<not> is_terminal j"
  then obtain j0 where j0: "cs 0 = Inr j0" "\<not> is_terminal j0" by blast
  show "poll_job_status cs jid d = None"
  proof (rule ccontr)
    assume "poll_job_status cs jid d \<noteq> None"
    then obtain y where "poll_loop cs jid d 1 j0 [CheckStatus jid] = Some y"
      using j0 by (auto simp: poll_job_status_def)
    from poll_loop_stops [OF this] j0(2) obtain k where "stops_at cs (1 + k)" by blast
    with all show False by (simp add: not_stops_at [symmetric])
  qed
qed

section \<open>Properties of the paths and of the cache copies\<close>

lemma split_on_not_Nil: "split_on c s \<noteq> []"
  by (induction s) simp_all

lemma split_on_no_sep:
  "c \<notin> set w \<Longrightarrow> split_on c (w @ s) = (w @ hd (split_on c s)) # tl (split_on c s)"
  by (induction w) (auto simp: split_on_not_Nil)

lemma split_on_rooted:
  "\<forall>c\<in>set cs. CHR ''/'' \<notin> set c \<Longrightarrow> split_on (CHR ''/'') (rooted cs) = [] # cs"
  by (induction cs) (simp_all add: rooted_def split_on_no_sep)

lemma fold_norm_step_plain:
  "\<forall>c\<in>set cs. plain c \<Longrightarrow> fold (norm_step k) cs acc = acc @ cs"
  by (induction cs arbitrary: acc) (simp_all add: norm_step_def plain_def)

lemma join_with_concat:
  "cs \<noteq> [] \<Longrightarrow> sep @ join_with sep cs = concat (map (\<lambda>c. sep @ c) cs)"
  by (induction sep cs rule: join_with.induct) simp_all

lemma join_with_rooted:
  "cs \<noteq> [] \<Longrightarrow> CHR ''/'' # join_with ''/'' cs = rooted cs"
  using join_with_concat [of cs "''/''"] by (simp add: rooted_def)

lemma rooted_not_endswith_sep:
  assumes "cs \<noteq> []" and "\<forall>c\<in>set cs. c \<noteq> [] \<and> CHR ''/'' \<notin> set c"
  shows "\<not> endswith_sep (rooted cs)"
proof -
  from assms(1) obtain xs x where xs: "cs = xs @ [x]" by (cases cs rule: rev_cases) auto
  with assms(2) have x: "x \<noteq> []" "CHR ''/'' \<notin> set x" by simp_all
  then have "last (rooted cs) = last x" by (simp add: xs rooted_def)
  moreover have "last x \<in> set x" using x(1) by (rule last_in_set)
  ultimately show ?thesis using x(2) by (auto simp: endswith_sep_def)
qed


lemma normpath_single_slash:
  "startswith p ''/'' \<Longrightarrow> \<not> startswith p ''//'' \<Longrightarrow>
   os_path_normpath p =
     CHR ''/'' # join_with ''/'' (fold (norm_step 1) (split_on (CHR ''/'') p) [])"
  by (auto simp: os_path_normpath_def Let_def startswith_def)

lemma archive_path_rooted:
  assumes cs: "cs \<noteq> []" "\<forall>c\<in>set cs. plain c" and jid: "plain jid"
  shows "archive_path cwd (rooted cs) jid = rooted (butlast cs @ [''archive'', jid])"
proof -
  have ne: "rooted cs \<noteq> []" using cs(1) by (cases cs) (simp_all add: rooted_def)
  have plain_parts: "\<forall>c\<in>set cs. c \<noteq> [] \<and> CHR ''/'' \<notin> set c"
    using cs(2) by (simp add: plain_def)
  have js: "\<not> startswith jid ''/''"
    using jid by (cases jid) (auto simp: plain_def startswith_def)
  have j: "os_path_join (rooted cs) [pardir, ''archive'', jid] =
             rooted (cs @ [''..'', ''archive'', jid])"
    using ne rooted_not_endswith_sep [OF cs(1) plain_parts] js
    by (simp add: os_path_join_def join_step_def pardir_def rooted_def startswith_def
          endswith_sep_def)
  let ?all = "cs @ [''..'', ''archive'', jid]"
  obtain c cs' where c: "cs = c # cs'" using cs(1) by (cases cs) auto
  then have pc: "plain c" using cs(2) by simp
  then obtain x xs where x: "c = x # xs" "x \<noteq> CHR ''/''"
    by (cases c) (auto simp: plain_def)
  have s1: "startswith (rooted ?all) ''/''"
    by (simp add: c rooted_def startswith_def)
  have s2: "\<not> startswith (rooted ?all) ''//''"
    using x by (simp add: c rooted_def startswith_def)
  have nosep: "\<forall>c\<in>set ?all. CHR ''/'' \<notin> set c"
    using cs(2) jid by (auto simp: plain_def)
  have sp: "split_on (CHR ''/'') (rooted ?all) = [] # ?all"
    by (rule split_on_rooted [OF nosep])
  have last_plain: "last cs \<noteq> ''..''"
    using cs by (metis last_in_set plain_def)
  have fd: "fold (norm_step 1) ([] # ?all) [] = butlast cs @ [''archive'', jid]"
    using cs jid last_plain
    by (simp add: fold_norm_step_plain norm_step_def plain_def)
  have "os_path_normpath (rooted ?all) =
          CHR ''/'' # join_with ''/'' (butlast cs @ [''archive'', jid])"
    by (simp only: normpath_single_slash [OF s1 s2] sp fd)
  then have "os_path_normpath (rooted ?all) = rooted (butlast cs @ [''archive'', jid])"
    by (simp add: join_with_rooted)
  then show ?thesis
    using s1 by (simp add: archive_path_def os_path_abspath_def j)
qed

text \<open>
  For a workspace that is a normalised absolute path with at least one component, and a
  job id that is a plain name, the archive path is the directory \<^verbatim>\<open>archive/<job_id>\<close>
  beside the workspace.
\<close>

theorem archive_path_is_sibling:
  assumes "cs \<noteq> []" and "\<forall>c\<in>set cs. plain c" and "plain jid"
  shows "archive_path cwd (rooted cs) jid = rooted (butlast cs @ [''archive'', jid])"
  using assms by (rule archive_path_rooted)

theorem archive_path_is_sibling_witness:
  "archive_path ''/home/user'' ''/var/reana/users/0/workflows/w1'' ''3fa85f64'' =
     ''/var/reana/users/0/workflows/archive/3fa85f64''"
  using archive_path_is_sibling
          [of "[''var'', ''reana'', ''users'', ''0'', ''workflows'', ''w1'']" "''3fa85f64''"
              "''/home/user''"]
  by (simp add: plain_def rooted_def)








text \<open>
  C6 (amended). For every result path and workspace, the restore operation hands one
  command to the shell, \<^verbatim>\<open>cp -R <result_path>/* <workspace>\<close>, and returns normally
  whatever the shell did and whatever exit status it gave: it raises nothing when the
  source path is missing or the copy does not complete.
\<close>

theorem copy_workspace_from_cache_returns_normally:
  "copy_workspace_from_cache os_system rp ws w =
     (Inr (),
      snd (os_system (''cp -R '' @ (if rp = [] \<or> endswith_sep rp then rp else rp @ ''/'') @
                      ''* '' @ ws) w))"
  by (simp add: copy_workspace_from_cache_def os_path_join_def join_step_def startswith_def
        split: prod.splits)

text \<open>
  The claim as it was stated promises an error when the source is missing or the copy
  fails. With a source that does not exist and a shell that reports failure (exit status
  256, nothing copied), the function still returns normally.
\<close>

theorem copy_workspace_from_cache_failure_counterexample:
  "(Map.empty :: filesystem) (path_components ''/archive/missing'') = None \<and>
   copy_workspace_from_cache (\<lambda>cmd fs. (256, fs)) ''/archive/missing'' ''/ws''
     (Map.empty :: filesystem) = (Inr (), Map.empty)"
  by (simp add: copy_workspace_from_cache_def)

end
